theory Spec2Isabelle
  imports Main "HOL-Library.AList"
begin

section \<open>Values shared by the models\<close>

text \<open>
  Times are JavaScript time values: whole milliseconds since the epoch, as \<open>Date.now()\<close>
  returns them and as two \<open>Date\<close> objects compare. The clock is an argument of every
  operation that reads it.
\<close>

type_synonym time = int

text \<open>
  A response payload is a JSON value. \<open>truthy\<close> is JavaScript's boolean coercion, which
  the cache middleware applies to what \<open>cache.get\<close> returns; \<open>null\<close> and
  \<open>undefined\<close> are both \<open>JNull\<close>.
\<close>

datatype json =
    JNull
  | JBool bool
  | JNum int
  | JStr string
  | JArr "json list"
  | JObj "(string \<times> json) list"


section \<open>Refresh tokens (models/RefreshToken)\<close>

text \<open>
  A row of the \<open>refresh_tokens\<close> table. \<open>expiresAt\<close> is not nullable;
  \<open>isRevoked\<close> is a boolean column.
\<close>

record RefreshToken =
  tokenId :: int
  token :: string
  userId :: int
  expiresAt :: time
  isRevoked :: bool
  userAgent :: "string option"
  ipAddress :: "string option"

text \<open>\<open>RefreshToken.prototype.isExpired\<close>: \<open>new Date() > this.expiresAt\<close>.\<close>

definition isExpired :: "time \<Rightarrow> RefreshToken \<Rightarrow> bool" where
  "isExpired now t = (now > expiresAt t)"

text \<open>\<open>RefreshToken.prototype.isValid\<close>: \<open>!this.isRevoked && !this.isExpired()\<close>.\<close>

definition isValid :: "time \<Rightarrow> RefreshToken \<Rightarrow> bool" where
  "isValid now t = (\<not> isRevoked t \<and> \<not> isExpired now t)"

text \<open>
  \<open>RefreshToken.findValidToken\<close>: \<open>findOne\<close> with the where clause
  \<open>{token, isRevoked: false, expiresAt: {[Op.gt]: new Date()}}\<close>. The table is the list
  of its rows; \<open>findOne\<close> returns the first row the clause selects, or \<open>null\<close>.
\<close>

definition findValidToken :: "time \<Rightarrow> RefreshToken list \<Rightarrow> string \<Rightarrow> RefreshToken option" where
  "findValidToken now tbl tok =
     List.find (\<lambda>r. token r = tok \<and> isRevoked r = False \<and> expiresAt r > now) tbl"

section \<open>Authentication and authorization middlewares (middlewares/auth)\<close>

text \<open>
  The attributes of a user instance that the middlewares read. \<open>user_id\<close> is the
  integer primary key \<open>id\<close>; \<open>role\<close> and \<open>status\<close> are the strings of
  \<open>USER_ROLES\<close> and \<open>USER_STATUS\<close> in config/constants.
\<close>

record User =
  user_id :: int
  role :: string
  status :: string
  isEmailVerified :: bool

definition USER_ROLES_ADMIN :: string where
  "USER_ROLES_ADMIN = ''admin''"

definition USER_STATUS_ACTIVE :: string where
  "USER_STATUS_ACTIVE = ''active''"

text \<open>
  The parts of an Express request the middlewares read or write:
  \<open>req.headers.authorization\<close>, \<open>req.user\<close> (absent until a middleware attaches it),
  the route parameters \<open>req.params\<close> (strings by name), \<open>req.method\<close>,
  \<open>req.originalUrl\<close>, \<open>req.path\<close> and the parsed query \<open>req.query\<close>.
\<close>

record Request =
  authorization :: "string option"
  user :: "User option"
  params :: "(string \<times> string) list"
  reqMethod :: string
  originalUrl :: string
  path :: string
  query :: json

text \<open>
  What a middleware does with the pipeline: it calls \<open>next()\<close>, or it ends the request
  with \<open>res.status(code).json(body)\<close> and the later stages never run.
\<close>

datatype action = Next | Respond nat json

text \<open>
  \<open>ApiResponse.error\<close> (utils/response) with no \<open>errors\<close> argument, and the three
  helpers built on it with their default messages. The \<open>timestamp\<close> field of the
  envelope is left out of the model.
\<close>

definition ApiResponse_error :: "string \<Rightarrow> int \<Rightarrow> json" where
  "ApiResponse_error message code =
     JObj [(''success'', JBool False), (''statusCode'', JNum code), (''message'', JStr message)]"

definition unauthorized :: "string \<Rightarrow> json" where
  "unauthorized message = ApiResponse_error message 401"

definition forbidden :: "string \<Rightarrow> json" where
  "forbidden message = ApiResponse_error message 403"

definition tooManyRequests :: "string \<Rightarrow> json" where
  "tooManyRequests message = ApiResponse_error message 429"

definition unauthorized_default :: json where
  "unauthorized_default = unauthorized ''Authentication required''"

text \<open>\<open>String.prototype.startsWith\<close>.\<close>

definition startsWith :: "string \<Rightarrow> string \<Rightarrow> bool" where
  "startsWith s p = (take (length p) s = p)"

text \<open>
  The decoded token payload, of which \<open>authenticate\<close> reads \<open>decoded.id\<close>:
  \<open>None\<close> when the payload has no \<open>id\<close>.
\<close>

record JwtPayload =
  decoded_id :: "int option"

text \<open>
  The \<open>catch\<close> block of \<open>authenticate\<close>, on the \<open>name\<close> of the error thrown.
\<close>

definition authenticate_catch :: "string \<Rightarrow> action" where
  "authenticate_catch errorName =
     (if errorName = ''TokenExpiredError'' then Respond 401 (unauthorized ''Token expired'')
      else if errorName = ''JsonWebTokenError'' then Respond 401 (unauthorized ''Invalid token'')
      else Respond 401 (unauthorized ''Authentication failed''))"

text \<open>
  \<open>authenticate\<close>. The two collaborators are arguments: \<open>verify\<close> is
  \<open>jwt.verify(token, jwtSecret)\<close> and \<open>findByPk\<close> is \<open>User.findByPk\<close>; each
  either throws (\<open>Inl\<close> the error's name) or returns. The result is the request as the
  middleware leaves it, and what it did with the pipeline.
\<close>

definition authenticate ::
  "(string \<Rightarrow> string + JwtPayload) \<Rightarrow> (int option \<Rightarrow> string + User option) \<Rightarrow> Request
     \<Rightarrow> Request \<times> action" where
  "authenticate verify findByPk req =
     (case authorization req of
        None \<Rightarrow> (req, Respond 401 (unauthorized ''No token provided''))
      | Some authHeader \<Rightarrow>
          if authHeader = [] \<or> \<not> startsWith authHeader ''Bearer ''
          then (req, Respond 401 (unauthorized ''No token provided''))
          else
            (case verify (drop 7 authHeader) of
               Inl e \<Rightarrow> (req, authenticate_catch e)
             | Inr decoded \<Rightarrow>
                 (case findByPk (decoded_id decoded) of
                    Inl e \<Rightarrow> (req, authenticate_catch e)
                  | Inr None \<Rightarrow>
                      (req, Respond 401 (unauthorized ''Invalid token - user not found''))
                  | Inr (Some u) \<Rightarrow>
                      if status u \<noteq> USER_STATUS_ACTIVE
                      then (req, Respond 401 (unauthorized ''Account is not active''))
                      else (req\<lparr>user := Some u\<rparr>, Next))))"

text \<open>
  \<open>authorize(...roles)\<close>. \<open>roles.includes(req.user.role)\<close> is membership in the list.
  The security log entry written on denial is not part of the model.
\<close>

definition authorize :: "string list \<Rightarrow> Request \<Rightarrow> action" where
  "authorize roles req =
     (case user req of
        None \<Rightarrow> Respond 401 unauthorized_default
      | Some u \<Rightarrow>
          if role u \<notin> set roles
          then Respond 403 (forbidden ''Insufficient permissions'')
          else Next)"

text \<open>
  \<open>req.params.id == req.user.id\<close> compares a route parameter, a string or
  \<open>undefined\<close>, with a number: \<open>undefined\<close> equals no number, and a string equals the
  number that the language's string-to-number conversion gives for it. That conversion
  belongs to the runtime and is the argument \<open>toNumber\<close> (\<open>None\<close> when the string
  converts to no integer).
\<close>

definition looseEq :: "(string \<Rightarrow> int option) \<Rightarrow> string option \<Rightarrow> int \<Rightarrow> bool" where
  "looseEq toNumber p n = (case p of None \<Rightarrow> False | Some s \<Rightarrow> toNumber s = Some n)"

text \<open>
  \<open>ownerOrAdmin(resourceIdParam, userIdField)\<close>. The body reads \<open>req.params.id\<close>,
  whatever \<open>resourceIdParam\<close> is, and never reads \<open>userIdField\<close>.
\<close>

definition ownerOrAdmin ::
  "(string \<Rightarrow> int option) \<Rightarrow> string \<Rightarrow> string \<Rightarrow> Request \<Rightarrow> action" where
  "ownerOrAdmin toNumber resourceIdParam userIdField req =
     (case user req of
        None \<Rightarrow> Respond 401 unauthorized_default
      | Some u \<Rightarrow>
          if role u = USER_ROLES_ADMIN then Next
          else if resourceIdParam = ''id''
                  \<and> looseEq toNumber (map_of (params req) ''id'') (user_id u) then Next
          else Respond 403 (forbidden ''Access denied''))"

text \<open>
  The conversion on strings of decimal digits, for the concrete requests of the examples
  below: \<open>''42''\<close> converts to 42.
\<close>

definition digitValue :: "char \<Rightarrow> int option" where
  "digitValue c = map_of (zip ''0123456789'' [0, 1, 2, 3, 4, 5, 6, 7, 8, 9]) c"

fun digitsToNumber_from :: "int \<Rightarrow> string \<Rightarrow> int option" where
  "digitsToNumber_from acc [] = Some acc"
| "digitsToNumber_from acc (c # cs) =
     (case digitValue c of
        None \<Rightarrow> None
      | Some d \<Rightarrow> digitsToNumber_from (10 * acc + d) cs)"

definition digitsToNumber :: "string \<Rightarrow> int option" where
  "digitsToNumber s = (if s = [] then None else digitsToNumber_from 0 s)"

subsection \<open>Rate limiting by user\<close>

text \<open>
  \<open>userRateLimit(maxRequests, windowMs)\<close> keeps, in the closure's \<open>userRequests\<close> map,
  the times of the requests it let through for each user id. A request first drops the
  times that are not later than \<open>now - windowMs\<close>; it is refused when \<open>maxRequests\<close> or
  more remain, and is let through, with its own time appended, otherwise. The array
  stored in the map is the one the time is pushed onto. \<open>history\<close> is the array of
  a user id, empty for an id the map does not have yet.
\<close>

definition history :: "(int \<rightharpoonup> time list) \<Rightarrow> int \<Rightarrow> time list" where
  "history userRequests uid = (case userRequests uid of None \<Rightarrow> [] | Some r \<Rightarrow> r)"

definition userRateLimit ::
  "int \<Rightarrow> int \<Rightarrow> time \<Rightarrow> Request \<Rightarrow> (int \<rightharpoonup> time list) \<Rightarrow> action \<times> (int \<rightharpoonup> time list)" where
  "userRateLimit maxRequests windowMs now req userRequests =
     (case user req of
        None \<Rightarrow> (Next, userRequests)
      | Some u \<Rightarrow>
          let userId = user_id u;
              windowStart = now - windowMs;
              requests = history userRequests userId;
              validRequests = filter (\<lambda>timestamp. timestamp > windowStart) requests
          in if int (length validRequests) \<ge> maxRequests
             then (Respond 429 (tooManyRequests ''Rate limit exceeded''),
                   userRequests(userId \<mapsto> validRequests))
             else (Next, userRequests(userId \<mapsto> validRequests @ [now])))"

text \<open>
  One limiter instance serving the same request at the given successive times: the
  actions taken, in order, and the map left behind.
\<close>

fun userRateLimit_run ::
  "int \<Rightarrow> int \<Rightarrow> Request \<Rightarrow> (int \<rightharpoonup> time list) \<Rightarrow> time list
     \<Rightarrow> action list \<times> (int \<rightharpoonup> time list)" where
  "userRateLimit_run maxRequests windowMs req userRequests [] = ([], userRequests)"
| "userRateLimit_run maxRequests windowMs req userRequests (now # later) =
     (case userRateLimit maxRequests windowMs now req userRequests of
        (a, userRequests') \<Rightarrow>
          (case userRateLimit_run maxRequests windowMs req userRequests' later of
             (as, userRequests'') \<Rightarrow> (a # as, userRequests'')))"

text \<open>
  The times of the requests of a run that were let through: \<open>acceptedTimes ts acts\<close>
  keeps the time of each request whose action is \<open>Next\<close>.
\<close>

fun acceptedTimes :: "time list \<Rightarrow> action list \<Rightarrow> time list" where
  "acceptedTimes (t # ts) (a # acts) =
     (if a = Next then t # acceptedTimes ts acts else acceptedTimes ts acts)"
| "acceptedTimes ts acts = []"

section \<open>Response cache (middlewares/cache)\<close>

text \<open>
  An item of the cache: the payload, the time it was stored, and its lifetime in
  milliseconds.
\<close>

record CacheItem =
  data :: json
  timestamp :: time
  ttl :: int

text \<open>
  \<open>MemoryCache\<close> holds two JavaScript \<open>Map\<close>s keyed by the cache key: the items, and
  the pending expiry timer of each key, kept here as the time at which the timer is due.
  A \<open>Map\<close> keeps its keys in insertion order: \<open>Map.set\<close> replaces the value of a key
  in place or appends a new key, which is \<open>AList.update\<close>.
\<close>

record MemoryCache =
  cache :: "(string \<times> CacheItem) list"
  timers :: "(string \<times> time) list"

text \<open>
  The delay the runtime gives a timer created by \<open>setTimeout(callback, delay)\<close>: the
  delay asked for when it lies between 1 and \<open>TIMEOUT_MAX\<close> milliseconds, and 1
  millisecond otherwise.
\<close>

definition TIMEOUT_MAX :: int where
  "TIMEOUT_MAX = 2147483647"

definition timerDelay :: "int \<Rightarrow> int" where
  "timerDelay delay = (if 1 \<le> delay \<and> delay \<le> TIMEOUT_MAX then delay else 1)"

text \<open>
  \<open>MemoryCache.set(key, value, ttl)\<close>, with \<open>ttl\<close> in seconds: the item is stored, and
  a timer that will delete the key is started with the delay \<open>ttl * 1000\<close> and recorded
  under the key. Clearing the key's earlier timer is subsumed by recording the new one
  in its place.
\<close>

definition cache_set :: "time \<Rightarrow> string \<Rightarrow> json \<Rightarrow> int \<Rightarrow> MemoryCache \<Rightarrow> MemoryCache" where
  "cache_set now key v ttlSeconds c =
     c\<lparr>cache := AList.update key \<lparr>data = v, timestamp = now, ttl = ttlSeconds * 1000\<rparr> (cache c),
       timers := AList.update key (now + timerDelay (ttlSeconds * 1000)) (timers c)\<rparr>"

text \<open>
  \<open>MemoryCache.delete(key)\<close>: whether the key had an item, and the cache without the
  key's timer and item.
\<close>

definition cache_delete :: "string \<Rightarrow> MemoryCache \<Rightarrow> bool \<times> MemoryCache" where
  "cache_delete key c =
     (map_of (cache c) key \<noteq> None,
      c\<lparr>timers := AList.delete key (timers c), cache := AList.delete key (cache c)\<rparr>)"



text \<open>
  \<open>MemoryCache.get(key)\<close>: \<open>null\<close> when the key has no item; \<open>null\<close>, after deleting
  the key, when \<open>Date.now() - item.timestamp > item.ttl\<close>; the item's payload otherwise.
\<close>

definition cache_get :: "time \<Rightarrow> string \<Rightarrow> MemoryCache \<Rightarrow> json \<times> MemoryCache" where
  "cache_get now key c =
     (case map_of (cache c) key of
        None \<Rightarrow> (JNull, c)
      | Some item \<Rightarrow>
          if now - timestamp item > ttl item
          then (JNull, snd (cache_delete key c))
          else (data item, c))"

text \<open>\<open>MemoryCache.keys()\<close>.\<close>

definition cache_keys :: "MemoryCache \<Rightarrow> string list" where
  "cache_keys c = map fst (cache c)"

text \<open>
  The response object: its status code (200 until a handler sets another), the headers
  set so far, and the body once it has been sent.
\<close>

record Response =
  statusCode :: nat
  headers :: "(string \<times> string) list"
  body :: "json option"




definition originalSend :: "json \<Rightarrow> Response \<Rightarrow> Response" where
  "originalSend d res = res\<lparr>body := Some d\<rparr>"







text \<open>\<open>String.prototype.includes\<close>: the pattern occurs somewhere in the string.\<close>

fun str_includes :: "string \<Rightarrow> string \<Rightarrow> bool" where
  "str_includes [] p = (p = [])"
| "str_includes (x # xs) p = (startsWith (x # xs) p \<or> str_includes xs p)"

text \<open>
  The \<open>res.send\<close> that \<open>invalidateCache(patterns)\<close> installs: on a status from 200 to
  299 and a non-empty pattern list it deletes, pattern by pattern, every key of the
  cache that includes the pattern; then it calls the original \<open>res.send\<close>.
\<close>

definition invalidatePattern :: "MemoryCache \<Rightarrow> string \<Rightarrow> MemoryCache" where
  "invalidatePattern c pattern =
     foldl (\<lambda>c' key. snd (cache_delete key c')) c
       (filter (\<lambda>key. str_includes key pattern) (cache_keys c))"

definition invalidateSend ::
  "string list \<Rightarrow> json \<Rightarrow> Response \<Rightarrow> MemoryCache \<Rightarrow> Response \<times> MemoryCache" where
  "invalidateSend patterns d res c =
     (originalSend d res,
      if statusCode res \<ge> 200 \<and> statusCode res < 300
      then (if length patterns > 0 then foldl invalidatePattern c patterns else c)
      else c)"

section \<open>User serialisation (models/User)\<close>

text \<open>
  \<open>User.prototype.toJSON\<close>, on the plain object \<open>this.get()\<close> returns: the attribute
  values by name, in order. The copy loses five keys and is returned.
\<close>

definition toJSON :: "(string \<times> json) list \<Rightarrow> (string \<times> json) list" where
  "toJSON vals =
     AList.delete ''twoFactorSecret''
       (AList.delete ''emailVerificationToken''
         (AList.delete ''resetPasswordExpires''
           (AList.delete ''resetPasswordToken''
             (AList.delete ''password'' vals))))"

section \<open>Theorems\<close>

subsection \<open>Refresh tokens\<close>

lemma findValidToken_Some:
  "findValidToken now tbl tok = Some r \<Longrightarrow>
     r \<in> set tbl \<and> token r = tok \<and> \<not> isRevoked r \<and> now < expiresAt r"
  unfolding findValidToken_def find_Some_iff
  by (auto simp: in_set_conv_nth)

text \<open>
  C1. A refresh token that is revoked, or whose \<open>expiresAt\<close> lies in the past, is never
  exchangeable: \<open>isValid\<close> is false for it and \<open>findValidToken\<close> does not return it,
  whatever the table and the token string asked for. What \<open>findValidToken\<close> returns is a
  row of the table with the asked token string, not revoked, and with \<open>expiresAt\<close>
  strictly later than the current time.
\<close>

theorem C1_revoked_or_expired_not_exchangeable:
  "((isRevoked r \<or> expiresAt r < now) \<longrightarrow>
       \<not> isValid now r \<and> findValidToken now tbl tok \<noteq> Some r)
   \<and> (findValidToken now tbl tok = Some r' \<longrightarrow>
       r' \<in> set tbl \<and> token r' = tok \<and> \<not> isRevoked r' \<and> now < expiresAt r')"
proof (intro conjI impI)
  assume bad: "isRevoked r \<or> expiresAt r < now"
  then show "\<not> isValid now r"
    by (auto simp: isValid_def isExpired_def)
  show "findValidToken now tbl tok \<noteq> Some r"
  proof
    assume "findValidToken now tbl tok = Some r"
    then have "\<not> isRevoked r \<and> now < expiresAt r"
      by (simp add: findValidToken_Some)
    with bad show False by auto
  qed
next
  assume "findValidToken now tbl tok = Some r'"
  then have ok: "r' \<in> set tbl \<and> token r' = tok \<and> \<not> isRevoked r' \<and> now < expiresAt r'"
    by (rule findValidToken_Some)
  from ok show "r' \<in> set tbl" by simp
  from ok show "token r' = tok" by simp
  from ok show "\<not> isRevoked r'" by simp
  from ok show "now < expiresAt r'" by simp
qed

theorem C1_revoked_or_expired_not_exchangeable_witness:
  "isRevoked \<lparr>tokenId = 1, token = ''a'', userId = 7, expiresAt = 500, isRevoked = True,
               userAgent = None, ipAddress = None\<rparr>
   \<and> \<not> isValid 100 \<lparr>tokenId = 1, token = ''a'', userId = 7, expiresAt = 500, isRevoked = True,
               userAgent = None, ipAddress = None\<rparr>
   \<and> findValidToken 100
        [\<lparr>tokenId = 1, token = ''a'', userId = 7, expiresAt = 500, isRevoked = True,
               userAgent = None, ipAddress = None\<rparr>,
         \<lparr>tokenId = 2, token = ''b'', userId = 7, expiresAt = 50, isRevoked = False,
               userAgent = None, ipAddress = None\<rparr>,
         \<lparr>tokenId = 3, token = ''c'', userId = 8, expiresAt = 500, isRevoked = False,
               userAgent = None, ipAddress = None\<rparr>] ''a'' = None
   \<and> findValidToken 100
        [\<lparr>tokenId = 1, token = ''a'', userId = 7, expiresAt = 500, isRevoked = True,
               userAgent = None, ipAddress = None\<rparr>,
         \<lparr>tokenId = 2, token = ''b'', userId = 7, expiresAt = 50, isRevoked = False,
               userAgent = None, ipAddress = None\<rparr>,
         \<lparr>tokenId = 3, token = ''c'', userId = 8, expiresAt = 500, isRevoked = False,
               userAgent = None, ipAddress = None\<rparr>] ''c''
       = Some \<lparr>tokenId = 3, token = ''c'', userId = 8, expiresAt = 500, isRevoked = False,
               userAgent = None, ipAddress = None\<rparr>
   \<and> (100::int) < expiresAt \<lparr>tokenId = 3, token = ''c'', userId = 8, expiresAt = 500, isRevoked = False,
               userAgent = None, ipAddress = None\<rparr>"
  using C1_revoked_or_expired_not_exchangeable
    [of "\<lparr>tokenId = 1, token = ''a'', userId = 7, expiresAt = 500, isRevoked = True,
               userAgent = None, ipAddress = None\<rparr>" 100
        "[\<lparr>tokenId = 1, token = ''a'', userId = 7, expiresAt = 500, isRevoked = True,
               userAgent = None, ipAddress = None\<rparr>,
         \<lparr>tokenId = 2, token = ''b'', userId = 7, expiresAt = 50, isRevoked = False,
               userAgent = None, ipAddress = None\<rparr>,
         \<lparr>tokenId = 3, token = ''c'', userId = 8, expiresAt = 500, isRevoked = False,
               userAgent = None, ipAddress = None\<rparr>]" "''c''"
        "\<lparr>tokenId = 3, token = ''c'', userId = 8, expiresAt = 500, isRevoked = False,
               userAgent = None, ipAddress = None\<rparr>"]
  by (simp add: findValidToken_def)

subsection \<open>Authentication\<close>

lemma startsWith_append: "startsWith s p \<Longrightarrow> s = p @ drop (length p) s"
  unfolding startsWith_def by (metis append_take_drop_id)

lemma authenticate_catch_401: "\<exists>b. authenticate_catch e = Respond 401 b"
  by (simp add: authenticate_catch_def)

lemma authenticate_Next:
  assumes "authenticate verify findByPk req = (req', Next)"
  shows "\<exists>tok decoded u. authorization req = Some (''Bearer '' @ tok) \<and> verify tok = Inr decoded
           \<and> findByPk (decoded_id decoded) = Inr (Some u) \<and> status u = ''active''
           \<and> req' = req\<lparr>user := Some u\<rparr>"
proof -
  from assms obtain h where h: "authorization req = Some h"
    by (cases "authorization req") (auto simp: authenticate_def)
  from assms h have sw: "startsWith h ''Bearer ''"
    by (auto simp: authenticate_def split: if_splits)
  have len: "length ''Bearer '' = 7" by simp
  from startsWith_append [OF sw] have hh: "h = ''Bearer '' @ drop 7 h"
    unfolding len .
  from assms h sw obtain decoded where d: "verify (drop 7 h) = Inr decoded"
    by (cases "verify (drop 7 h)")
       (auto simp: authenticate_def authenticate_catch_def split: if_splits)
  from assms h sw d obtain u where u: "findByPk (decoded_id decoded) = Inr (Some u)"
    by (cases "findByPk (decoded_id decoded)")
       (auto simp: authenticate_def authenticate_catch_def split: if_splits option.splits)
  from assms h sw d u have "status u = ''active'' \<and> req' = req\<lparr>user := Some u\<rparr>"
    by (auto simp: authenticate_def USER_STATUS_ACTIVE_def split: if_splits)
  with h hh d u show ?thesis by metis
qed

lemma authenticate_inactive:
  assumes "authorization req = Some (''Bearer '' @ tok)" "verify tok = Inr decoded"
    "findByPk (decoded_id decoded) = Inr (Some u)" "status u \<noteq> ''active''"
  shows "authenticate verify findByPk req
           = (req, Respond 401 (unauthorized ''Account is not active''))"
  using assms by (simp add: authenticate_def startsWith_def USER_STATUS_ACTIVE_def)

lemma authenticate_reject:
  assumes "snd (authenticate verify findByPk req) \<noteq> Next"
  shows "\<exists>b. authenticate verify findByPk req = (req, Respond 401 b)"
  using assms authenticate_catch_401
  by (auto simp: authenticate_def split: option.splits sum.splits if_splits)

text \<open>
  C2. \<open>authenticate\<close> attaches \<open>req.user\<close> and continues the pipeline only if the
  header carries a bearer token that verifies, the user the token names exists, and that
  user's status is \<open>active\<close>. For a user whose status is anything else the request ends
  with 401 and the request object is left as it came. Every request the middleware does
  not continue ends with 401 and an untouched request object.
\<close>

theorem C2_session_only_for_active_user:
  "(authenticate verify findByPk req = (req', Next) \<longrightarrow>
      (\<exists>tok decoded u. authorization req = Some (''Bearer '' @ tok) \<and> verify tok = Inr decoded
          \<and> findByPk (decoded_id decoded) = Inr (Some u) \<and> status u = ''active''
          \<and> req' = req\<lparr>user := Some u\<rparr>))
   \<and> (authorization req = Some (''Bearer '' @ tok1) \<and> verify tok1 = Inr decoded1
        \<and> findByPk (decoded_id decoded1) = Inr (Some u1) \<and> status u1 \<noteq> ''active'' \<longrightarrow>
        authenticate verify findByPk req
          = (req, Respond 401 (unauthorized ''Account is not active'')))
   \<and> (snd (authenticate verify findByPk req) \<noteq> Next \<longrightarrow>
        (\<exists>b. authenticate verify findByPk req = (req, Respond 401 b)))"
  using authenticate_Next [of verify findByPk req req']
    authenticate_inactive [of req tok1 verify decoded1 findByPk u1]
    authenticate_reject [of verify findByPk req]
  by blast

theorem C2_session_only_for_active_user_witness:
  "authenticate
      (\<lambda>t. if t = ''good'' then Inr \<lparr>decoded_id = Some 7\<rparr>
           else if t = ''idle'' then Inr \<lparr>decoded_id = Some 8\<rparr> else Inl ''JsonWebTokenError'')
      (\<lambda>i. if i = Some 7
           then Inr (Some \<lparr>user_id = 7, role = ''user'', status = ''active'', isEmailVerified = True\<rparr>)
           else if i = Some 8
           then Inr (Some \<lparr>user_id = 8, role = ''user'', status = ''suspended'', isEmailVerified = True\<rparr>)
           else Inr None)
      \<lparr>authorization = Some ''Bearer good'', user = None, params = [], reqMethod = ''GET'',
       originalUrl = ''/me'', path = ''/me'', query = JObj []\<rparr>
    = (\<lparr>authorization = Some ''Bearer good'',
        user = Some \<lparr>user_id = 7, role = ''user'', status = ''active'', isEmailVerified = True\<rparr>,
        params = [], reqMethod = ''GET'', originalUrl = ''/me'', path = ''/me'', query = JObj []\<rparr>,
       Next)
   \<and> authenticate
      (\<lambda>t. if t = ''good'' then Inr \<lparr>decoded_id = Some 7\<rparr>
           else if t = ''idle'' then Inr \<lparr>decoded_id = Some 8\<rparr> else Inl ''JsonWebTokenError'')
      (\<lambda>i. if i = Some 7
           then Inr (Some \<lparr>user_id = 7, role = ''user'', status = ''active'', isEmailVerified = True\<rparr>)
           else if i = Some 8
           then Inr (Some \<lparr>user_id = 8, role = ''user'', status = ''suspended'', isEmailVerified = True\<rparr>)
           else Inr None)
      \<lparr>authorization = Some ''Bearer idle'', user = None, params = [], reqMethod = ''GET'',
       originalUrl = ''/me'', path = ''/me'', query = JObj []\<rparr>
    = (\<lparr>authorization = Some ''Bearer idle'', user = None, params = [], reqMethod = ''GET'',
        originalUrl = ''/me'', path = ''/me'', query = JObj []\<rparr>,
       Respond 401 (unauthorized ''Account is not active''))"
  using C2_session_only_for_active_user
    [of "\<lambda>t. if t = ''good'' then Inr \<lparr>decoded_id = Some 7\<rparr>
           else if t = ''idle'' then Inr \<lparr>decoded_id = Some 8\<rparr> else Inl ''JsonWebTokenError''"
        "\<lambda>i. if i = Some 7
           then Inr (Some \<lparr>user_id = 7, role = ''user'', status = ''active'', isEmailVerified = True\<rparr>)
           else if i = Some 8
           then Inr (Some \<lparr>user_id = 8, role = ''user'', status = ''suspended'', isEmailVerified = True\<rparr>)
           else Inr None"
        "\<lparr>authorization = Some ''Bearer good'', user = None, params = [], reqMethod = ''GET'',
          originalUrl = ''/me'', path = ''/me'', query = JObj []\<rparr>"
        "\<lparr>authorization = Some ''Bearer good'',
          user = Some \<lparr>user_id = 7, role = ''user'', status = ''active'', isEmailVerified = True\<rparr>,
          params = [], reqMethod = ''GET'', originalUrl = ''/me'', path = ''/me'', query = JObj []\<rparr>"]
    C2_session_only_for_active_user
    [of "\<lambda>t. if t = ''good'' then Inr \<lparr>decoded_id = Some 7\<rparr>
           else if t = ''idle'' then Inr \<lparr>decoded_id = Some 8\<rparr> else Inl ''JsonWebTokenError''"
        "\<lambda>i. if i = Some 7
           then Inr (Some \<lparr>user_id = 7, role = ''user'', status = ''active'', isEmailVerified = True\<rparr>)
           else if i = Some 8
           then Inr (Some \<lparr>user_id = 8, role = ''user'', status = ''suspended'', isEmailVerified = True\<rparr>)
           else Inr None"
        "\<lparr>authorization = Some ''Bearer idle'', user = None, params = [], reqMethod = ''GET'',
          originalUrl = ''/me'', path = ''/me'', query = JObj []\<rparr>"
        _ "''idle''" "\<lparr>decoded_id = Some 8\<rparr>"
        "\<lparr>user_id = 8, role = ''user'', status = ''suspended'', isEmailVerified = True\<rparr>"]
  by (simp add: authenticate_def startsWith_def USER_STATUS_ACTIVE_def)

subsection \<open>Role and ownership checks\<close>

text \<open>
  C3. With a principal on the request, \<open>authorize(...roles)\<close> continues the pipeline
  if and only if the principal's role is in the list of required roles, and answers 403
  when it is not; with no principal it answers 401.
\<close>

theorem C3_authorize_iff_role_member:
  "(user req = Some u \<longrightarrow>
      (authorize roles req = Next \<longleftrightarrow> role u \<in> set roles)
      \<and> (role u \<notin> set roles \<longrightarrow>
            authorize roles req = Respond 403 (forbidden ''Insufficient permissions'')))
   \<and> (user req = None \<longrightarrow> authorize roles req = Respond 401 unauthorized_default)"
  by (simp add: authorize_def)

theorem C3_authorize_iff_role_member_witness:
  "authorize [''admin'', ''moderator'']
      \<lparr>authorization = None,
       user = Some \<lparr>user_id = 3, role = ''moderator'', status = ''active'', isEmailVerified = True\<rparr>,
       params = [], reqMethod = ''GET'', originalUrl = ''/admin'', path = ''/admin'',
       query = JObj []\<rparr> = Next
   \<and> authorize [''admin'', ''moderator'']
      \<lparr>authorization = None,
       user = Some \<lparr>user_id = 4, role = ''user'', status = ''active'', isEmailVerified = True\<rparr>,
       params = [], reqMethod = ''GET'', originalUrl = ''/admin'', path = ''/admin'',
       query = JObj []\<rparr> = Respond 403 (forbidden ''Insufficient permissions'')
   \<and> authorize [''admin'', ''moderator'']
      \<lparr>authorization = None, user = None,
       params = [], reqMethod = ''GET'', originalUrl = ''/admin'', path = ''/admin'',
       query = JObj []\<rparr> = Respond 401 unauthorized_default"
  using C3_authorize_iff_role_member
    [of "\<lparr>authorization = None,
       user = Some \<lparr>user_id = 3, role = ''moderator'', status = ''active'', isEmailVerified = True\<rparr>,
       params = [], reqMethod = ''GET'', originalUrl = ''/admin'', path = ''/admin'',
       query = JObj []\<rparr>"
       "\<lparr>user_id = 3, role = ''moderator'', status = ''active'', isEmailVerified = True\<rparr>"
       "[''admin'', ''moderator'']"]
    C3_authorize_iff_role_member
    [of "\<lparr>authorization = None,
       user = Some \<lparr>user_id = 4, role = ''user'', status = ''active'', isEmailVerified = True\<rparr>,
       params = [], reqMethod = ''GET'', originalUrl = ''/admin'', path = ''/admin'',
       query = JObj []\<rparr>"
       "\<lparr>user_id = 4, role = ''user'', status = ''active'', isEmailVerified = True\<rparr>"
       "[''admin'', ''moderator'']"]
    C3_authorize_iff_role_member
    [of "\<lparr>authorization = None, user = None,
       params = [], reqMethod = ''GET'', originalUrl = ''/admin'', path = ''/admin'',
       query = JObj []\<rparr>" _ "[''admin'', ''moderator'']"]
  by simp

text \<open>
  C4, as the code has it. With a principal on the request, \<open>ownerOrAdmin\<close> continues if
  and only if the principal's role is \<open>admin\<close>, or the middleware was built for the
  parameter name \<open>id\<close> and \<open>req.params.id\<close> loosely equals the principal's id; in
  every other case it answers 403, and with no principal 401. Built for another
  parameter name, it lets only admins through.
\<close>

theorem C4_ownerOrAdmin_only_id_param:
  "(user req = Some u \<longrightarrow>
      (ownerOrAdmin toNumber resourceIdParam userIdField req = Next \<longleftrightarrow>
         role u = ''admin''
         \<or> (resourceIdParam = ''id''
              \<and> looseEq toNumber (map_of (params req) ''id'') (user_id u)))
      \<and> (ownerOrAdmin toNumber resourceIdParam userIdField req \<noteq> Next \<longrightarrow>
            ownerOrAdmin toNumber resourceIdParam userIdField req
              = Respond 403 (forbidden ''Access denied'')))
   \<and> (user req = None \<longrightarrow>
        ownerOrAdmin toNumber resourceIdParam userIdField req = Respond 401 unauthorized_default)"
  by (simp add: ownerOrAdmin_def USER_ROLES_ADMIN_def)

theorem C4_ownerOrAdmin_only_id_param_witness:
  "ownerOrAdmin digitsToNumber ''id'' ''userId''
      \<lparr>authorization = None,
       user = Some \<lparr>user_id = 7, role = ''user'', status = ''active'', isEmailVerified = True\<rparr>,
       params = [(''id'', ''7'')], reqMethod = ''GET'', originalUrl = ''/users/7'',
       path = ''/users/7'', query = JObj []\<rparr> = Next
   \<and> ownerOrAdmin digitsToNumber ''id'' ''userId''
      \<lparr>authorization = None,
       user = Some \<lparr>user_id = 8, role = ''user'', status = ''active'', isEmailVerified = True\<rparr>,
       params = [(''id'', ''7'')], reqMethod = ''GET'', originalUrl = ''/users/7'',
       path = ''/users/7'', query = JObj []\<rparr> = Respond 403 (forbidden ''Access denied'')
   \<and> ownerOrAdmin digitsToNumber ''id'' ''userId''
      \<lparr>authorization = None, user = None,
       params = [(''id'', ''7'')], reqMethod = ''GET'', originalUrl = ''/users/7'',
       path = ''/users/7'', query = JObj []\<rparr> = Respond 401 unauthorized_default"
  using C4_ownerOrAdmin_only_id_param
    [of "\<lparr>authorization = None,
       user = Some \<lparr>user_id = 7, role = ''user'', status = ''active'', isEmailVerified = True\<rparr>,
       params = [(''id'', ''7'')], reqMethod = ''GET'', originalUrl = ''/users/7'',
       path = ''/users/7'', query = JObj []\<rparr>"
       "\<lparr>user_id = 7, role = ''user'', status = ''active'', isEmailVerified = True\<rparr>"
       digitsToNumber "''id''" "''userId''"]
    C4_ownerOrAdmin_only_id_param
    [of "\<lparr>authorization = None,
       user = Some \<lparr>user_id = 8, role = ''user'', status = ''active'', isEmailVerified = True\<rparr>,
       params = [(''id'', ''7'')], reqMethod = ''GET'', originalUrl = ''/users/7'',
       path = ''/users/7'', query = JObj []\<rparr>"
       "\<lparr>user_id = 8, role = ''user'', status = ''active'', isEmailVerified = True\<rparr>"
       digitsToNumber "''id''" "''userId''"]
    C4_ownerOrAdmin_only_id_param
    [of "\<lparr>authorization = None, user = None,
       params = [(''id'', ''7'')], reqMethod = ''GET'', originalUrl = ''/users/7'',
       path = ''/users/7'', query = JObj []\<rparr>" _ digitsToNumber "''id''" "''userId''"]
  by (simp add: looseEq_def digitsToNumber_def digitValue_def)

text \<open>
  C4 as stated fails for a parameter name other than \<open>id\<close>: on a route whose
  resource id is the parameter \<open>userId\<close>, the principal with id 7 and role \<open>user\<close>
  asking for the resource of owner 7 is refused with 403.
\<close>

theorem C4_ownerOrAdmin_counterexample:
  "looseEq digitsToNumber (map_of [(''userId'', ''7'')] ''userId'') 7
   \<and> ownerOrAdmin digitsToNumber ''userId'' ''userId''
        \<lparr>authorization = None,
         user = Some \<lparr>user_id = 7, role = ''user'', status = ''active'', isEmailVerified = True\<rparr>,
         params = [(''userId'', ''7'')], reqMethod = ''GET'',
         originalUrl = ''/users/7/orders'', path = ''/users/7/orders'', query = JObj []\<rparr>
       = Respond 403 (forbidden ''Access denied'')"
  by (simp add: ownerOrAdmin_def looseEq_def digitsToNumber_def digitValue_def USER_ROLES_ADMIN_def)

subsection \<open>Rate limiting by user\<close>

lemma userRateLimit_step:
  assumes "user req = Some u"
  shows "userRateLimit maxRequests windowMs now req st =
     (if maxRequests \<le> int (length (filter (\<lambda>s. now - windowMs < s) (history st (user_id u))))
      then (Respond 429 (tooManyRequests ''Rate limit exceeded''),
            st(user_id u \<mapsto> filter (\<lambda>s. now - windowMs < s) (history st (user_id u))))
      else (Next,
            st(user_id u \<mapsto> filter (\<lambda>s. now - windowMs < s) (history st (user_id u)) @ [now])))"
  using assms by (simp add: userRateLimit_def Let_def)

lemma history_upd: "history (st(k \<mapsto> l)) k = l"
  by (simp add: history_def)

lemma filter_live:
  assumes "\<forall>s \<in> set l. t1 \<le> (s::int)" "t < t1 + windowMs"
  shows "filter (\<lambda>s. t - windowMs < s) l = l"
proof -
  have "t - windowMs < s" if "s \<in> set l" for s
    using assms that by fastforce
  then show ?thesis by simp
qed

lemma run_Cons:
  assumes "userRateLimit maxRequests windowMs t req st = (a, st')"
  shows "fst (userRateLimit_run maxRequests windowMs req st (t # ts))
           = a # fst (userRateLimit_run maxRequests windowMs req st' ts)"
    and "snd (userRateLimit_run maxRequests windowMs req st (t # ts))
           = snd (userRateLimit_run maxRequests windowMs req st' ts)"
  using assms by (simp_all split: prod.splits)

lemma run_in_window:
  assumes "user req = Some u"
    and "\<forall>s \<in> set (history st (user_id u)). t1 \<le> s"
    and "\<forall>t \<in> set ts. t1 \<le> t \<and> t < t1 + windowMs"
  shows "fst (userRateLimit_run maxRequests windowMs req st ts)
           = map (\<lambda>i. if int (length (history st (user_id u))) + int i < maxRequests then Next
                      else Respond 429 (tooManyRequests ''Rate limit exceeded''))
               [0..<length ts]
         \<and> history (snd (userRateLimit_run maxRequests windowMs req st ts)) (user_id u)
           = history st (user_id u)
               @ take (nat (maxRequests - int (length (history st (user_id u))))) ts"
  using assms(2,3)
proof (induction ts arbitrary: st)
  case Nil
  then show ?case by simp
next
  case (Cons t ts)
  let ?l = "history st (user_id u)"
  let ?R = "Respond 429 (tooManyRequests ''Rate limit exceeded'')"
  have live: "filter (\<lambda>s. t - windowMs < s) ?l = ?l"
    using Cons.prems filter_live [of ?l t1 t windowMs] by simp
  have pre2: "\<forall>t \<in> set ts. t1 \<le> t \<and> t < t1 + windowMs"
    using Cons.prems by simp
  show ?case
  proof (cases "maxRequests \<le> int (length ?l)")
    case True
    let ?st' = "st(user_id u \<mapsto> ?l)"
    have step: "userRateLimit maxRequests windowMs t req st = (?R, ?st')"
      using True live by (simp add: userRateLimit_step [OF assms(1)])
    have h': "history ?st' (user_id u) = ?l" by (rule history_upd)
    have pre: "\<forall>s \<in> set (history ?st' (user_id u)). t1 \<le> s"
      unfolding h' using Cons.prems by simp
    note IH = Cons.IH [OF pre pre2, unfolded h']
    have nat0: "nat (maxRequests - int (length ?l)) = 0" using True by simp
    have rhs: "map (\<lambda>i. if int (length ?l) + int i < maxRequests then Next else ?R)
                 [0..<length (t # ts)]
               = ?R # map (\<lambda>i. if int (length ?l) + int i < maxRequests then Next else ?R)
                       [0..<length ts]"
      using True by (simp add: map_upt_Suc del: upt_Suc)
    have "fst (userRateLimit_run maxRequests windowMs req st (t # ts))
            = map (\<lambda>i. if int (length ?l) + int i < maxRequests then Next else ?R)
                [0..<length (t # ts)]"
      unfolding rhs run_Cons(1) [OF step] by (simp only: IH [THEN conjunct1])
    moreover have "history (snd (userRateLimit_run maxRequests windowMs req st (t # ts))) (user_id u)
            = ?l @ take (nat (maxRequests - int (length ?l))) (t # ts)"
      unfolding run_Cons(2) [OF step] nat0 using IH [unfolded nat0] by (simp only: take_0)
    ultimately show ?thesis by (rule conjI)
  next
    case False
    let ?st' = "st(user_id u \<mapsto> ?l @ [t])"
    have step: "userRateLimit maxRequests windowMs t req st = (Next, ?st')"
      using False live by (simp add: userRateLimit_step [OF assms(1)])
    have h': "history ?st' (user_id u) = ?l @ [t]" by (rule history_upd)
    have pre: "\<forall>s \<in> set (history ?st' (user_id u)). t1 \<le> s"
      unfolding h' using Cons.prems by simp
    note IH = Cons.IH [OF pre pre2, unfolded h']
    from False obtain k where k: "nat (maxRequests - int (length ?l)) = Suc k"
      by (cases "nat (maxRequests - int (length ?l))") auto
    then have k': "nat (maxRequests - int (length (?l @ [t]))) = k" by simp
    have rhs: "map (\<lambda>i. if int (length ?l) + int i < maxRequests then Next else ?R)
                 [0..<length (t # ts)]
               = Next # map (\<lambda>i. if int (length (?l @ [t])) + int i < maxRequests then Next else ?R)
                       [0..<length ts]"
      using False by (simp add: map_upt_Suc del: upt_Suc)
    have "fst (userRateLimit_run maxRequests windowMs req st (t # ts))
            = map (\<lambda>i. if int (length ?l) + int i < maxRequests then Next else ?R)
                [0..<length (t # ts)]"
      unfolding rhs run_Cons(1) [OF step] by (simp only: IH [THEN conjunct1])
    moreover have "history (snd (userRateLimit_run maxRequests windowMs req st (t # ts))) (user_id u)
            = ?l @ take (nat (maxRequests - int (length ?l))) (t # ts)"
      unfolding run_Cons(2) [OF step] k using IH [unfolded k']
      by (simp only: take_Suc_Cons append_assoc append_Cons append_Nil)
    ultimately show ?thesis by (rule conjI)
  qed
qed

lemma filter_stale:
  assumes "\<forall>s \<in> set l. (s::int) \<le> t1 - windowMs"
  shows "filter (\<lambda>s. t1 - windowMs < s) l = []"
proof -
  have "\<not> t1 - windowMs < s" if "s \<in> set l" for s
    using assms that by fastforce
  then show ?thesis by (simp add: filter_empty_conv)
qed

text \<open>
  A window that opens on a log with no live entry. Take a user whose recorded times are
  all \<open>windowMs\<close> or more before \<open>t1\<close>, a request at \<open>t1\<close> and further requests at
  times from \<open>t1\<close> up to, not including, \<open>t1 + windowMs\<close>. The request of index
  \<open>i\<close> (counting from 0) continues the pipeline when \<open>i < maxRequests\<close> and is
  answered 429 otherwise; and, when \<open>maxRequests\<close> is at least 1, the first request that
  arrives at \<open>t1 + windowMs\<close> or later continues again.
\<close>

lemma userRateLimit_window_on_fresh_history:
  assumes "user req = Some u"
    and "\<forall>s \<in> set (history st (user_id u)). s \<le> t1 - windowMs"
    and "\<forall>t \<in> set ts. t1 \<le> t \<and> t < t1 + windowMs"
  shows "(\<forall>i < length (t1 # ts).
            fst (userRateLimit_run maxRequests windowMs req st (t1 # ts)) ! i
              = (if int i < maxRequests then Next
                 else Respond 429 (tooManyRequests ''Rate limit exceeded'')))
         \<and> (0 < maxRequests \<and> t1 + windowMs \<le> t \<longrightarrow>
              fst (userRateLimit maxRequests windowMs t req
                     (snd (userRateLimit_run maxRequests windowMs req st (t1 # ts)))) = Next)"
proof -
  let ?R = "Respond 429 (tooManyRequests ''Rate limit exceeded'')"
  let ?run = "userRateLimit_run maxRequests windowMs req"
  have stale: "filter (\<lambda>s. t1 - windowMs < s) (history st (user_id u)) = []"
    using assms(2) by (rule filter_stale)
  show ?thesis
  proof (cases "0 < maxRequests")
    case False
    let ?st' = "st(user_id u \<mapsto> [])"
    have step: "userRateLimit maxRequests windowMs t1 req st = (?R, ?st')"
      using False stale by (simp add: userRateLimit_step [OF assms(1)])
    have h': "history ?st' (user_id u) = []" by (rule history_upd)
    have pre: "\<forall>s \<in> set (history ?st' (user_id u)). t1 \<le> s"
      unfolding h' by simp
    note rest = run_in_window [OF assms(1) pre assms(3), of maxRequests, unfolded h', THEN conjunct1]
    have outs: "fst (?run st (t1 # ts)) = ?R # map (\<lambda>i. ?R) [0..<length ts]"
      unfolding run_Cons(1) [OF step] rest using False by simp
    have "fst (?run st (t1 # ts)) ! i = ?R" if "i < length (t1 # ts)" for i
      unfolding outs using that by (cases i) simp_all
    then show ?thesis using False by simp
  next
    case True
    let ?st' = "st(user_id u \<mapsto> [t1])"
    have step: "userRateLimit maxRequests windowMs t1 req st = (Next, ?st')"
      using True stale by (simp add: userRateLimit_step [OF assms(1)])
    have h': "history ?st' (user_id u) = [t1]" by (rule history_upd)
    have pre: "\<forall>s \<in> set (history ?st' (user_id u)). t1 \<le> s"
      unfolding h' by simp
    note rest = run_in_window [OF assms(1) pre assms(3), of maxRequests, unfolded h']
    have outs: "fst (?run st (t1 # ts))
                  = Next # map (\<lambda>i. if 1 + int i < maxRequests then Next else ?R) [0..<length ts]"
      unfolding run_Cons(1) [OF step] rest [THEN conjunct1] by simp
    have part1: "fst (?run st (t1 # ts)) ! i = (if int i < maxRequests then Next else ?R)"
      if "i < length (t1 # ts)" for i
    proof (cases i)
      case 0
      then show ?thesis unfolding outs using True by simp
    next
      case (Suc j)
      then have "j < length ts" using that by simp
      then show ?thesis unfolding outs Suc by simp
    qed
    have hist: "history (snd (?run st (t1 # ts))) (user_id u)
                  = [t1] @ take (nat (maxRequests - 1)) ts"
      unfolding run_Cons(2) [OF step] using rest [THEN conjunct2] by simp
    have part3: "fst (userRateLimit maxRequests windowMs t req (snd (?run st (t1 # ts)))) = Next"
      if late: "t1 + windowMs \<le> t"
    proof -
      have "length (filter (\<lambda>s. t - windowMs < s) (take (nat (maxRequests - 1)) ts))
              \<le> nat (maxRequests - 1)"
        by (rule order_trans [OF length_filter_le]) simp
      then have "int (length (filter (\<lambda>s. t - windowMs < s) ([t1] @ take (nat (maxRequests - 1)) ts)))
              < maxRequests"
        using late True by simp
      then show ?thesis
        unfolding userRateLimit_step [OF assms(1)] hist by simp
    qed
    show ?thesis using part1 part3 by blast
  qed
qed

text \<open>
  C5 as stated fails for the window that a request reopens. With \<open>maxRequests = 2\<close> and
  \<open>windowMs = 10\<close>, requests at 0 and 9 pass; the window that began at 0 has elapsed at
  10, and the request at 10 passes again; the request at 11 is the second request of the
  window that began at 10, and 2 is within the maximum, yet it is answered 429: the
  request at 9 still counts against it.
\<close>

theorem C5_userRateLimit_counterexample:
  "fst (userRateLimit_run 2 10
          \<lparr>authorization = None,
           user = Some \<lparr>user_id = 7, role = ''user'', status = ''active'', isEmailVerified = True\<rparr>,
           params = [], reqMethod = ''GET'', originalUrl = ''/me'', path = ''/me'',
           query = JObj []\<rparr>
          Map.empty [0, 9, 10, 11])
     = [Next, Next, Next, Respond 429 (tooManyRequests ''Rate limit exceeded'')]"
  by (simp add: userRateLimit_def history_def Let_def)

lemma step_action:
  assumes "user req = Some u"
  shows "fst (userRateLimit maxRequests windowMs now req st)
           = (if int (length (filter (\<lambda>s. now - windowMs < s) (history st (user_id u))))
                  < maxRequests
              then Next else Respond 429 (tooManyRequests ''Rate limit exceeded''))"
  by (simp add: userRateLimit_step [OF assms])

lemma step_history:
  assumes "user req = Some u"
  shows "history (snd (userRateLimit maxRequests windowMs now req st)) (user_id u)
           = filter (\<lambda>s. now - windowMs < s) (history st (user_id u))
             @ (if fst (userRateLimit maxRequests windowMs now req st) = Next then [now] else [])"
  by (simp add: userRateLimit_step [OF assms] history_upd)

lemma filter_later_window:
  assumes "(t::int) \<le> t'"
  shows "filter (\<lambda>s. t' - windowMs < s) (filter (\<lambda>s. t - windowMs < s) l)
           = filter (\<lambda>s. t' - windowMs < s) l"
proof -
  have "(t - windowMs < s \<and> t' - windowMs < s) = (t' - windowMs < s)" for s
    using assms by auto
  then show ?thesis by (simp add: conj_commute)
qed

lemma run_sliding_log:
  assumes "user req = Some u" and "sorted ts" and "i < length ts"
  shows "fst (userRateLimit_run maxRequests windowMs req st ts) ! i
           = (if int (length (filter (\<lambda>s. ts ! i - windowMs < s)
                                (history st (user_id u)
                                 @ acceptedTimes (take i ts)
                                     (take i (fst (userRateLimit_run maxRequests windowMs req st ts))))))
                  < maxRequests
              then Next else Respond 429 (tooManyRequests ''Rate limit exceeded''))"
  using assms(2,3)
proof (induction ts arbitrary: st i)
  case Nil
  then show ?case by simp
next
  case (Cons t ts)
  let ?a = "fst (userRateLimit maxRequests windowMs t req st)"
  let ?st' = "snd (userRateLimit maxRequests windowMs t req st)"
  let ?outs' = "fst (userRateLimit_run maxRequests windowMs req ?st' ts)"
  have step: "userRateLimit maxRequests windowMs t req st = (?a, ?st')" by simp
  have outs: "fst (userRateLimit_run maxRequests windowMs req st (t # ts)) = ?a # ?outs'"
    by (rule run_Cons(1) [OF step])
  show ?case
  proof (cases i)
    case 0
    show ?thesis unfolding outs 0 by (simp add: step_action [OF assms(1)])
  next
    case (Suc j)
    have j: "j < length ts" using Cons.prems Suc by simp
    have sorted': "sorted ts" using Cons.prems by simp
    have le: "t \<le> ts ! j" using Cons.prems j by simp
    have acc: "acceptedTimes (take (Suc j) (t # ts)) (take (Suc j) (?a # ?outs'))
                 = (if ?a = Next then [t] else []) @ acceptedTimes (take j ts) (take j ?outs')"
      by simp
    have live: "filter (\<lambda>s. ts ! j - windowMs < s)
                  (history st (user_id u)
                   @ acceptedTimes (take (Suc j) (t # ts)) (take (Suc j) (?a # ?outs')))
              = filter (\<lambda>s. ts ! j - windowMs < s)
                  (history ?st' (user_id u) @ acceptedTimes (take j ts) (take j ?outs'))"
      unfolding acc step_history [OF assms(1)]
      by (simp only: filter_append filter_later_window [OF le] append_assoc)
    have "(?a # ?outs') ! Suc j = ?outs' ! j" by simp
    also have "\<dots> = (if int (length (filter (\<lambda>s. ts ! j - windowMs < s)
                                (history ?st' (user_id u)
                                 @ acceptedTimes (take j ts) (take j ?outs'))))
                  < maxRequests
              then Next else Respond 429 (tooManyRequests ''Rate limit exceeded''))"
      by (rule Cons.IH [OF sorted' j])
    finally show ?thesis
      unfolding outs Suc live [symmetric] by simp
  qed
qed

text \<open>
  C5, as the code has it. The limiter keeps a sliding log of the times of the requests it
  let through, not a counter that is reset. For a user's requests arriving at times that
  never decrease, a request continues the pipeline if and only if fewer than
  \<open>maxRequests\<close> accepted requests lie in the \<open>windowMs\<close> before it, that is, are later
  than its time minus \<open>windowMs\<close>: the accepted requests are those recorded before the
  run and the earlier requests of the run that passed. Every other request is answered
  429 and the pipeline stops. In particular, for a window that opens at \<open>t1\<close> on a log
  with no live entry, the N-th request arriving before \<open>t1 + windowMs\<close> passes when
  \<open>N \<le> maxRequests\<close> and is answered 429 when \<open>N > maxRequests\<close>, request
  \<open>maxRequests + 1\<close> among them, and, when \<open>maxRequests\<close> is at least 1, the first
  request arriving at \<open>t1 + windowMs\<close> or later passes again. (Index \<open>i\<close> counts from
  0: the N-th request has \<open>i = N - 1\<close>.)
\<close>

theorem C5_userRateLimit_sliding_log:
  assumes "user req = Some u"
  shows "(sorted ts \<longrightarrow>
            (\<forall>i < length ts.
               fst (userRateLimit_run maxRequests windowMs req st ts) ! i
                 = (if int (length (filter (\<lambda>s. ts ! i - windowMs < s)
                         (history st (user_id u)
                          @ acceptedTimes (take i ts)
                              (take i (fst (userRateLimit_run maxRequests windowMs req st ts))))))
                        < maxRequests
                    then Next else Respond 429 (tooManyRequests ''Rate limit exceeded''))))
         \<and> ((\<forall>s \<in> set (history st (user_id u)). s \<le> t1 - windowMs)
              \<and> (\<forall>t \<in> set rest. t1 \<le> t \<and> t < t1 + windowMs) \<longrightarrow>
              (\<forall>i < length (t1 # rest).
                 fst (userRateLimit_run maxRequests windowMs req st (t1 # rest)) ! i
                   = (if int i < maxRequests then Next
                      else Respond 429 (tooManyRequests ''Rate limit exceeded'')))
              \<and> (0 < maxRequests \<and> t1 + windowMs \<le> t \<longrightarrow>
                   fst (userRateLimit maxRequests windowMs t req
                          (snd (userRateLimit_run maxRequests windowMs req st (t1 # rest))))
                     = Next))"
proof (rule conjI)
  show "sorted ts \<longrightarrow>
            (\<forall>i < length ts.
               fst (userRateLimit_run maxRequests windowMs req st ts) ! i
                 = (if int (length (filter (\<lambda>s. ts ! i - windowMs < s)
                         (history st (user_id u)
                          @ acceptedTimes (take i ts)
                              (take i (fst (userRateLimit_run maxRequests windowMs req st ts))))))
                        < maxRequests
                    then Next else Respond 429 (tooManyRequests ''Rate limit exceeded'')))"
    using run_sliding_log [OF assms] by blast
next
  show "(\<forall>s \<in> set (history st (user_id u)). s \<le> t1 - windowMs)
              \<and> (\<forall>t \<in> set rest. t1 \<le> t \<and> t < t1 + windowMs) \<longrightarrow>
              (\<forall>i < length (t1 # rest).
                 fst (userRateLimit_run maxRequests windowMs req st (t1 # rest)) ! i
                   = (if int i < maxRequests then Next
                      else Respond 429 (tooManyRequests ''Rate limit exceeded'')))
              \<and> (0 < maxRequests \<and> t1 + windowMs \<le> t \<longrightarrow>
                   fst (userRateLimit maxRequests windowMs t req
                          (snd (userRateLimit_run maxRequests windowMs req st (t1 # rest))))
                     = Next)"
  proof (rule impI)
    assume w: "(\<forall>s \<in> set (history st (user_id u)). s \<le> t1 - windowMs)
              \<and> (\<forall>t \<in> set rest. t1 \<le> t \<and> t < t1 + windowMs)"
    show "(\<forall>i < length (t1 # rest).
                 fst (userRateLimit_run maxRequests windowMs req st (t1 # rest)) ! i
                   = (if int i < maxRequests then Next
                      else Respond 429 (tooManyRequests ''Rate limit exceeded'')))
              \<and> (0 < maxRequests \<and> t1 + windowMs \<le> t \<longrightarrow>
                   fst (userRateLimit maxRequests windowMs t req
                          (snd (userRateLimit_run maxRequests windowMs req st (t1 # rest))))
                     = Next)"
      by (rule userRateLimit_window_on_fresh_history
            [OF assms w [THEN conjunct1] w [THEN conjunct2]])
  qed
qed

lemma sample_run:
  "fst (userRateLimit_run 2 10
          \<lparr>authorization = None,
           user = Some \<lparr>user_id = 7, role = ''user'', status = ''active'', isEmailVerified = True\<rparr>,
           params = [], reqMethod = ''GET'', originalUrl = ''/me'', path = ''/me'',
           query = JObj []\<rparr>
          Map.empty [0, 9, 10, 11])
     = [Next, Next, Next, Respond 429 (tooManyRequests ''Rate limit exceeded'')]"
  by (simp add: userRateLimit_def history_def Let_def)

theorem C5_userRateLimit_sliding_log_witness:
  "sorted [0, 9, 10, 11 :: int]
   \<and> filter (\<lambda>s. [0, 9, 10, 11] ! 3 - 10 < s)
        (history Map.empty 7
         @ acceptedTimes (take 3 [0, 9, 10, 11])
             (take 3 (fst (userRateLimit_run 2 10
                \<lparr>authorization = None,
                 user = Some \<lparr>user_id = 7, role = ''user'', status = ''active'',
                              isEmailVerified = True\<rparr>,
                 params = [], reqMethod = ''GET'', originalUrl = ''/me'', path = ''/me'',
                 query = JObj []\<rparr>
                Map.empty [0, 9, 10, 11]))))
       = [9, 10]
   \<and> fst (userRateLimit_run 2 10
          \<lparr>authorization = None,
           user = Some \<lparr>user_id = 7, role = ''user'', status = ''active'', isEmailVerified = True\<rparr>,
           params = [], reqMethod = ''GET'', originalUrl = ''/me'', path = ''/me'',
           query = JObj []\<rparr>
          Map.empty [0, 9, 10, 11]) ! 3
       = Respond 429 (tooManyRequests ''Rate limit exceeded'')
   \<and> fst (userRateLimit_run 2 10
          \<lparr>authorization = None,
           user = Some \<lparr>user_id = 7, role = ''user'', status = ''active'', isEmailVerified = True\<rparr>,
           params = [], reqMethod = ''GET'', originalUrl = ''/me'', path = ''/me'',
           query = JObj []\<rparr>
          [7 \<mapsto> [-5, 90]] [100, 103, 109]) ! 1 = Next
   \<and> fst (userRateLimit_run 2 10
          \<lparr>authorization = None,
           user = Some \<lparr>user_id = 7, role = ''user'', status = ''active'', isEmailVerified = True\<rparr>,
           params = [], reqMethod = ''GET'', originalUrl = ''/me'', path = ''/me'',
           query = JObj []\<rparr>
          [7 \<mapsto> [-5, 90]] [100, 103, 109]) ! 2
       = Respond 429 (tooManyRequests ''Rate limit exceeded'')
   \<and> fst (userRateLimit 2 10 110
          \<lparr>authorization = None,
           user = Some \<lparr>user_id = 7, role = ''user'', status = ''active'', isEmailVerified = True\<rparr>,
           params = [], reqMethod = ''GET'', originalUrl = ''/me'', path = ''/me'',
           query = JObj []\<rparr>
          (snd (userRateLimit_run 2 10
          \<lparr>authorization = None,
           user = Some \<lparr>user_id = 7, role = ''user'', status = ''active'', isEmailVerified = True\<rparr>,
           params = [], reqMethod = ''GET'', originalUrl = ''/me'', path = ''/me'',
           query = JObj []\<rparr>
          [7 \<mapsto> [-5, 90]] [100, 103, 109]))) = Next"
proof -
  let ?u = "\<lparr>user_id = 7, role = ''user'', status = ''active'', isEmailVerified = True\<rparr>"
  let ?req = "\<lparr>authorization = None, user = Some ?u,
           params = [], reqMethod = ''GET'', originalUrl = ''/me'', path = ''/me'',
           query = JObj []\<rparr>"
  have a1: "user ?req = Some ?u" by simp
  have srt: "sorted [0, 9, 10, 11 :: int]" by simp
  have acc: "filter (\<lambda>s. [0, 9, 10, 11] ! 3 - 10 < s)
        (history Map.empty 7
         @ acceptedTimes (take 3 [0, 9, 10, 11])
             (take 3 (fst (userRateLimit_run 2 10 ?req Map.empty [0, 9, 10, 11]))))
       = [9, 10 :: int]"
    unfolding sample_run by (simp add: history_def)
  have fresh: "(\<forall>s \<in> set (history [7 \<mapsto> [-5, 90]] (user_id ?u)). s \<le> 100 - 10)
      \<and> (\<forall>t \<in> set [103, 109::int]. 100 \<le> t \<and> t < 100 + 10)"
    by (simp add: history_def)
  note law = C5_userRateLimit_sliding_log
    [OF a1, of "[0, 9, 10, 11]" 2 10 Map.empty, THEN conjunct1, rule_format, OF srt, of 3]
  note win = C5_userRateLimit_sliding_log
    [OF a1, of _ 2 10 "[7 \<mapsto> [-5, 90]]" 100 "[103, 109]" 110, THEN conjunct2, rule_format, OF fresh]
  have "fst (userRateLimit_run 2 10 ?req Map.empty [0, 9, 10, 11]) ! 3
       = Respond 429 (tooManyRequests ''Rate limit exceeded'')"
    using law unfolding sample_run by (simp add: history_def)
  moreover have "fst (userRateLimit_run 2 10 ?req [7 \<mapsto> [-5, 90]] [100, 103, 109]) ! 1 = Next"
    using win [THEN conjunct1, rule_format, of 1] by (simp del: userRateLimit_run.simps)
  moreover have "fst (userRateLimit_run 2 10 ?req [7 \<mapsto> [-5, 90]] [100, 103, 109]) ! 2
       = Respond 429 (tooManyRequests ''Rate limit exceeded'')"
    using win [THEN conjunct1, rule_format, of 2] by (simp del: userRateLimit_run.simps)
  moreover have "fst (userRateLimit 2 10 110 ?req
          (snd (userRateLimit_run 2 10 ?req [7 \<mapsto> [-5, 90]] [100, 103, 109]))) = Next"
    using win [THEN conjunct2] by (simp del: userRateLimit_run.simps)
  ultimately show ?thesis using srt acc by (simp del: userRateLimit_run.simps)
qed

subsection \<open>Response cache\<close>

lemma cache_delete_cache:
  "map_of (cache (snd (cache_delete key c))) k = (if k = key then None else map_of (cache c) k)"
  by (simp add: cache_delete_def AList.delete_conv')

lemma cache_delete_timers:
  "map_of (timers (snd (cache_delete key c))) k = (if k = key then None else map_of (timers c) k)"
  by (simp add: cache_delete_def AList.delete_conv')

lemma cache_set_cache:
  "map_of (cache (cache_set now key v ttlSeconds c)) k
     = (if k = key then Some \<lparr>data = v, timestamp = now, ttl = ttlSeconds * 1000\<rparr>
        else map_of (cache c) k)"
  by (simp add: cache_set_def AList.update_conv')

lemma cache_get_expired:
  assumes "map_of (cache c) key = Some item" "now - timestamp item > ttl item"
  shows "cache_get now key c = (JNull, snd (cache_delete key c))"
  using assms by (simp add: cache_get_def)


text \<open>
  C8. \<open>MemoryCache.get\<close> never returns a payload past its lifetime: when the key has
  an item and more than the item's \<open>ttl\<close> has passed since its \<open>timestamp\<close>,
  \<open>get\<close> returns \<open>null\<close> and leaves the cache without the key's item and timer. In
  particular an item stored by \<open>set\<close> at time \<open>t\<close> with a lifetime of
  \<open>ttlSeconds\<close> seconds is not returned at any time later than
  \<open>t + ttlSeconds * 1000\<close>.
\<close>

theorem C8_get_never_serves_past_lifetime:
  "(map_of (cache c) key = Some item \<and> now - timestamp item > ttl item \<longrightarrow>
      fst (cache_get now key c) = JNull
      \<and> map_of (cache (snd (cache_get now key c))) key = None
      \<and> map_of (timers (snd (cache_get now key c))) key = None)
   \<and> (now - t > ttlSeconds * 1000 \<longrightarrow>
      fst (cache_get now key (cache_set t key v ttlSeconds c)) = JNull
      \<and> map_of (cache (snd (cache_get now key (cache_set t key v ttlSeconds c)))) key = None)"
proof (intro conjI impI)
  assume a: "map_of (cache c) key = Some item \<and> now - timestamp item > ttl item"
  then have g: "cache_get now key c = (JNull, snd (cache_delete key c))"
    by (simp add: cache_get_expired)
  show "fst (cache_get now key c) = JNull" by (simp add: g)
  show "map_of (cache (snd (cache_get now key c))) key = None"
    by (simp add: g cache_delete_cache)
  show "map_of (timers (snd (cache_get now key c))) key = None"
    by (simp add: g cache_delete_timers)
next
  assume late: "now - t > ttlSeconds * 1000"
  let ?c = "cache_set t key v ttlSeconds c"
  let ?item = "\<lparr>data = v, timestamp = t, ttl = ttlSeconds * 1000\<rparr>"
  have stored: "map_of (cache ?c) key = Some ?item" by (simp add: cache_set_cache)
  have g: "cache_get now key ?c = (JNull, snd (cache_delete key ?c))"
    using late by (simp add: cache_get_expired [OF stored])
  show "fst (cache_get now key ?c) = JNull" by (simp add: g)
  show "map_of (cache (snd (cache_get now key ?c))) key = None"
    by (simp add: g cache_delete_cache)
qed

theorem C8_get_never_serves_past_lifetime_witness:
  "fst (cache_get 5001 ''GET:/p:{}''
          \<lparr>cache = [(''GET:/p:{}'', \<lparr>data = JStr ''x'', timestamp = 1000, ttl = 4000\<rparr>)],
           timers = [(''GET:/p:{}'', 5000)]\<rparr>) = JNull
   \<and> snd (cache_get 5001 ''GET:/p:{}''
          \<lparr>cache = [(''GET:/p:{}'', \<lparr>data = JStr ''x'', timestamp = 1000, ttl = 4000\<rparr>)],
           timers = [(''GET:/p:{}'', 5000)]\<rparr>) = \<lparr>cache = [], timers = []\<rparr>
   \<and> fst (cache_get 5001 ''k'' (cache_set 1000 ''k'' (JStr ''x'') 4 \<lparr>cache = [], timers = []\<rparr>))
       = JNull
   \<and> fst (cache_get 5000 ''k'' (cache_set 1000 ''k'' (JStr ''x'') 4 \<lparr>cache = [], timers = []\<rparr>))
       = JStr ''x''"
  using C8_get_never_serves_past_lifetime
    [of "\<lparr>cache = [(''GET:/p:{}'', \<lparr>data = JStr ''x'', timestamp = 1000, ttl = 4000\<rparr>)],
           timers = [(''GET:/p:{}'', 5000)]\<rparr>" "''GET:/p:{}''"
        "\<lparr>data = JStr ''x'', timestamp = 1000, ttl = 4000\<rparr>" 5001 1000 4 "JStr ''x''"]
  by (simp add: cache_get_def cache_set_def cache_delete_def timerDelay_def TIMEOUT_MAX_def)

























lemma startsWith_iff: "startsWith s p \<longleftrightarrow> (\<exists>b. s = p @ b)"
proof
  assume "startsWith s p"
  then have "s = p @ drop (length p) s" by (rule startsWith_append)
  then show "\<exists>b. s = p @ b" ..
next
  assume "\<exists>b. s = p @ b"
  then show "startsWith s p" by (auto simp: startsWith_def)
qed

lemma str_includes_iff: "str_includes s p \<longleftrightarrow> (\<exists>a b. s = a @ p @ b)"
proof (induction s)
  case Nil
  then show ?case by auto
next
  case (Cons x xs)
  show ?case
  proof
    assume "str_includes (x # xs) p"
    then consider "startsWith (x # xs) p" | "str_includes xs p" by auto
    then show "\<exists>a b. x # xs = a @ p @ b"
    proof cases
      case 1
      then obtain b where "x # xs = p @ b" unfolding startsWith_iff ..
      then have "x # xs = [] @ p @ b" by simp
      then show ?thesis by blast
    next
      case 2
      then obtain a b where "xs = a @ p @ b" using Cons.IH by blast
      then have "x # xs = (x # a) @ p @ b" by simp
      then show ?thesis by blast
    qed
  next
    assume "\<exists>a b. x # xs = a @ p @ b"
    then obtain a b where ab: "x # xs = a @ p @ b" by blast
    show "str_includes (x # xs) p"
    proof (cases a)
      case Nil
      then have "startsWith (x # xs) p" using ab startsWith_iff by fastforce
      then show ?thesis by simp
    next
      case (Cons y ys)
      then have "xs = ys @ p @ b" using ab by simp
      then have "str_includes xs p" using Cons.IH by blast
      then show ?thesis by simp
    qed
  qed
qed

lemma delete_keys_cache:
  "map_of (cache (foldl (\<lambda>c' key. snd (cache_delete key c')) c ks)) k
     = (if k \<in> set ks then None else map_of (cache c) k)"
  by (induction ks arbitrary: c) (simp_all add: cache_delete_cache)

lemma delete_keys_timers:
  "map_of (timers (foldl (\<lambda>c' key. snd (cache_delete key c')) c ks)) k
     = (if k \<in> set ks then None else map_of (timers c) k)"
  by (induction ks arbitrary: c) (simp_all add: cache_delete_timers)

lemma invalidatePattern_cache:
  "map_of (cache (invalidatePattern c p)) k
     = (if str_includes k p then None else map_of (cache c) k)"
proof (cases "k \<in> fst ` set (cache c)")
  case True
  then show ?thesis
    by (simp add: invalidatePattern_def delete_keys_cache cache_keys_def)
next
  case False
  then have "map_of (cache c) k = None" by (simp add: map_of_eq_None_iff)
  then show ?thesis
    using False by (simp add: invalidatePattern_def delete_keys_cache cache_keys_def)
qed

lemma invalidatePattern_timers:
  "\<not> str_includes k p \<Longrightarrow> map_of (timers (invalidatePattern c p)) k = map_of (timers c) k"
  by (simp add: invalidatePattern_def delete_keys_timers)

lemma invalidate_all_cache:
  "map_of (cache (foldl invalidatePattern c ps)) k
     = (if \<exists>p \<in> set ps. str_includes k p then None else map_of (cache c) k)"
  by (induction ps arbitrary: c) (simp_all add: invalidatePattern_cache)

lemma invalidate_all_timers:
  "\<forall>p \<in> set ps. \<not> str_includes k p \<Longrightarrow>
     map_of (timers (foldl invalidatePattern c ps)) k = map_of (timers c) k"
  by (induction ps arbitrary: c) (simp_all add: invalidatePattern_timers)

text \<open>
  C9. When the response of a request wrapped by \<open>invalidateCache(patterns)\<close> is sent
  with a status from 200 to 299, the response goes out as the original \<open>res.send\<close>
  sends it, and the cache at that moment holds no item under any key in which one of
  the patterns occurs, while under every other key it holds what it held before; the
  timers of those other keys are untouched as well.
\<close>

theorem C9_invalidate_purges_matching_keys_only:
  assumes "200 \<le> statusCode res" "statusCode res < 300"
  shows "fst (invalidateSend patterns d res c) = originalSend d res
     \<and> map_of (cache (snd (invalidateSend patterns d res c))) k
         = (if \<exists>p \<in> set patterns. \<exists>a b. k = a @ p @ b then None else map_of (cache c) k)
     \<and> (\<not> (\<exists>p \<in> set patterns. \<exists>a b. k = a @ p @ b) \<longrightarrow>
           map_of (timers (snd (invalidateSend patterns d res c))) k = map_of (timers c) k)"
proof -
  have snd_eq: "snd (invalidateSend patterns d res c) = foldl invalidatePattern c patterns"
    using assms by (cases patterns) (simp_all add: invalidateSend_def)
  have "fst (invalidateSend patterns d res c) = originalSend d res"
    by (simp add: invalidateSend_def)
  moreover have "map_of (cache (snd (invalidateSend patterns d res c))) k
         = (if \<exists>p \<in> set patterns. \<exists>a b. k = a @ p @ b then None else map_of (cache c) k)"
    unfolding snd_eq invalidate_all_cache str_includes_iff ..
  moreover have "\<not> (\<exists>p \<in> set patterns. \<exists>a b. k = a @ p @ b) \<longrightarrow>
           map_of (timers (snd (invalidateSend patterns d res c))) k = map_of (timers c) k"
    unfolding snd_eq str_includes_iff [symmetric] using invalidate_all_timers by blast
  ultimately show ?thesis by blast
qed

theorem C9_invalidate_purges_matching_keys_only_witness:
  "map_of (cache (snd (invalidateSend [''products'', ''api''] (JObj [(''success'', JBool True)])
        \<lparr>statusCode = 201, headers = [], body = None\<rparr>
        \<lparr>cache = [(''GET:/products:{}'', \<lparr>data = JStr ''p'', timestamp = 10, ttl = 1800000\<rparr>),
                  (''GET:/categories:{}'', \<lparr>data = JStr ''c'', timestamp = 20, ttl = 1800000\<rparr>)],
         timers = [(''GET:/products:{}'', 1800010), (''GET:/categories:{}'', 1800020)]\<rparr>)))
      ''GET:/products:{}'' = None
   \<and> map_of (cache (snd (invalidateSend [''products'', ''api''] (JObj [(''success'', JBool True)])
        \<lparr>statusCode = 201, headers = [], body = None\<rparr>
        \<lparr>cache = [(''GET:/products:{}'', \<lparr>data = JStr ''p'', timestamp = 10, ttl = 1800000\<rparr>),
                  (''GET:/categories:{}'', \<lparr>data = JStr ''c'', timestamp = 20, ttl = 1800000\<rparr>)],
         timers = [(''GET:/products:{}'', 1800010), (''GET:/categories:{}'', 1800020)]\<rparr>)))
      ''GET:/categories:{}'' = Some \<lparr>data = JStr ''c'', timestamp = 20, ttl = 1800000\<rparr>
   \<and> map_of (timers (snd (invalidateSend [''products'', ''api''] (JObj [(''success'', JBool True)])
        \<lparr>statusCode = 201, headers = [], body = None\<rparr>
        \<lparr>cache = [(''GET:/products:{}'', \<lparr>data = JStr ''p'', timestamp = 10, ttl = 1800000\<rparr>),
                  (''GET:/categories:{}'', \<lparr>data = JStr ''c'', timestamp = 20, ttl = 1800000\<rparr>)],
         timers = [(''GET:/products:{}'', 1800010), (''GET:/categories:{}'', 1800020)]\<rparr>)))
      ''GET:/categories:{}'' = Some 1800020"
proof -
  let ?res = "\<lparr>statusCode = 201, headers = [], body = None\<rparr>"
  let ?c = "\<lparr>cache = [(''GET:/products:{}'', \<lparr>data = JStr ''p'', timestamp = 10, ttl = 1800000\<rparr>),
                  (''GET:/categories:{}'', \<lparr>data = JStr ''c'', timestamp = 20, ttl = 1800000\<rparr>)],
         timers = [(''GET:/products:{}'', 1800010), (''GET:/categories:{}'', 1800020)]\<rparr>"
  have s1: "200 \<le> statusCode ?res" and s2: "statusCode ?res < 300" by simp_all
  note i1 = C9_invalidate_purges_matching_keys_only
    [OF s1 s2, of "[''products'', ''api'']" "JObj [(''success'', JBool True)]" ?c
      "''GET:/products:{}''", unfolded str_includes_iff [symmetric]]
  note i2 = C9_invalidate_purges_matching_keys_only
    [OF s1 s2, of "[''products'', ''api'']" "JObj [(''success'', JBool True)]" ?c
      "''GET:/categories:{}''", unfolded str_includes_iff [symmetric]]
  from i1 have "map_of (cache (snd (invalidateSend [''products'', ''api'']
      (JObj [(''success'', JBool True)]) ?res ?c))) ''GET:/products:{}'' = None"
    by (simp add: startsWith_def)
  moreover from i2 have "map_of (cache (snd (invalidateSend [''products'', ''api'']
      (JObj [(''success'', JBool True)]) ?res ?c))) ''GET:/categories:{}''
      = Some \<lparr>data = JStr ''c'', timestamp = 20, ttl = 1800000\<rparr>"
    by (simp add: startsWith_def)
  moreover from i2 have "map_of (timers (snd (invalidateSend [''products'', ''api'']
      (JObj [(''success'', JBool True)]) ?res ?c))) ''GET:/categories:{}'' = Some 1800020"
    by (simp add: startsWith_def)
  ultimately show ?thesis by simp
qed

subsection \<open>User serialisation\<close>

lemma toJSON_filter:
  "toJSON vals = filter (\<lambda>(k, v). k \<notin> {''password'', ''resetPasswordToken'',
       ''resetPasswordExpires'', ''emailVerificationToken'', ''twoFactorSecret''}) vals"
  unfolding toJSON_def AList.delete_eq
  by (induction vals) auto

text \<open>
  C10. The object \<open>User.prototype.toJSON\<close> returns has none of the keys
  \<open>password\<close>, \<open>resetPasswordToken\<close>, \<open>resetPasswordExpires\<close>,
  \<open>emailVerificationToken\<close> and \<open>twoFactorSecret\<close>, whatever values the instance
  stores, and has every other attribute with its stored value, in the stored order.
\<close>

theorem C10_toJSON_strips_secret_fields:
  "map_of (toJSON vals) k
     = (if k \<in> {''password'', ''resetPasswordToken'', ''resetPasswordExpires'',
                 ''emailVerificationToken'', ''twoFactorSecret''}
        then None else map_of vals k)
   \<and> toJSON vals = filter (\<lambda>(k, v). k \<notin> {''password'', ''resetPasswordToken'',
       ''resetPasswordExpires'', ''emailVerificationToken'', ''twoFactorSecret''}) vals"
proof
  show "map_of (toJSON vals) k
     = (if k \<in> {''password'', ''resetPasswordToken'', ''resetPasswordExpires'',
                 ''emailVerificationToken'', ''twoFactorSecret''}
        then None else map_of vals k)"
    unfolding toJSON_def AList.delete_conv' by simp
  show "toJSON vals = filter (\<lambda>(k, v). k \<notin> {''password'', ''resetPasswordToken'',
       ''resetPasswordExpires'', ''emailVerificationToken'', ''twoFactorSecret''}) vals"
    by (rule toJSON_filter)
qed

theorem C10_toJSON_strips_secret_fields_witness:
  "toJSON [(''id'', JNum 7), (''email'', JStr ''a@b.c''), (''password'', JStr ''$2a$12$hash''),
           (''role'', JStr ''user''), (''resetPasswordToken'', JNull),
           (''resetPasswordExpires'', JNull), (''emailVerificationToken'', JStr ''abc''),
           (''twoFactorEnabled'', JBool False), (''twoFactorSecret'', JStr ''s3cret'')]
    = [(''id'', JNum 7), (''email'', JStr ''a@b.c''), (''role'', JStr ''user''),
       (''twoFactorEnabled'', JBool False)]"
  using C10_toJSON_strips_secret_fields
    [of "[(''id'', JNum 7), (''email'', JStr ''a@b.c''), (''password'', JStr ''$2a$12$hash''),
           (''role'', JStr ''user''), (''resetPasswordToken'', JNull),
           (''resetPasswordExpires'', JNull), (''emailVerificationToken'', JStr ''abc''),
           (''twoFactorEnabled'', JBool False), (''twoFactorSecret'', JStr ''s3cret'')]" "''password''"]
  by simp

end
